theory Spec2Isabelle
  imports Main
begin

section \<open>The browser pool of packages/puppeteer/src/pool.ts\<close>

text \<open>
  The module wraps a generic-pool of Puppeteer browsers. Everything it does is a sequence
  of calls to collaborators that live outside the file (generic-pool, Puppeteer, the
  caller's handler and \<^verbatim>\<open>setupPageRules\<close> from \<^verbatim>\<open>./pageRules\<close>), so the model keeps a
  log of those calls, in the order they are made, and asks a function for the answer
  of each call. Any call may throw: the answer is \<open>Inl\<close> of the thrown value or \<open>Inr\<close> of
  the returned handle.
\<close>

subsection \<open>Handles, calls and collaborators\<close>

type_synonym browser_id = nat
type_synonym context_id = nat
type_synonym page_id = nat
type_synonym rule_options = nat
type_synonym thrown = nat

text \<open>The receiver of \<^verbatim>\<open>(ingocnito ?? browser).newPage()\<close>.\<close>

datatype owner = OnContext context_id | OnBrowser browser_id

datatype call =
    CreateBrowser
  | PoolAcquire
  | CreateIncognitoBrowserContext browser_id
  | NewPage owner
  | SetupPageRules page_id rule_options
  | PageOnPopup page_id
  | HandlerCall page_id
  | PageClose page_id
  | ContextClose context_id
  | PoolRelease browser_id

text \<open>
  The collaborators answer a call knowing the calls made before it, so a second
  \<^verbatim>\<open>close()\<close> of a page may be answered differently from the first.
\<close>

type_synonym collaborators = "call list \<Rightarrow> call \<Rightarrow> thrown + nat"

definition perform :: "collaborators \<Rightarrow> call \<Rightarrow> call list \<Rightarrow> (thrown + nat) \<times> call list" where
  "perform orc c log = (orc log c, log @ [c])"

subsection \<open>Options\<close>

text \<open>
  \<^verbatim>\<open>PoolOptions\<close> (lines 5-11) and its defaults (lines 13-25). Numbers are integers
  here. The fields \<^verbatim>\<open>min\<close> and \<^verbatim>\<open>max\<close> are called \<open>pool_min\<close> and \<open>pool_max\<close>.
\<close>

record PoolOptions =
  autostart :: bool
  pool_min :: int
  pool_max :: int
  timeout :: int
  testOnBorrow :: bool

definition defaultPoolOptions :: PoolOptions where
  "defaultPoolOptions =
     \<lparr>autostart = True, pool_min = 0, pool_max = 5, timeout = 30000, testOnBorrow = True\<rparr>"

text \<open>\<^verbatim>\<open>Partial<PoolOptions>\<close>: \<open>None\<close> is a property the caller left out.\<close>

record PartialPoolOptions =
  autostart_opt :: "bool option"
  min_opt :: "int option"
  max_opt :: "int option"
  timeout_opt :: "int option"
  testOnBorrow_opt :: "bool option"

definition or_default :: "'a option \<Rightarrow> 'a \<Rightarrow> 'a" where
  "or_default supplied d = (case supplied of Some v \<Rightarrow> v | None \<Rightarrow> d)"

text \<open>\<^verbatim>\<open>{ ...defaultPoolOptions, ...options }\<close> (line 71); \<^verbatim>\<open>options\<close> itself is optional.\<close>

definition spreadPoolOptions :: "PoolOptions \<Rightarrow> PartialPoolOptions option \<Rightarrow> PoolOptions" where
  "spreadPoolOptions d options =
     (case options of
        None \<Rightarrow> d
      | Some p \<Rightarrow>
          \<lparr>autostart = or_default (autostart_opt p) (autostart d),
           pool_min = or_default (min_opt p) (pool_min d),
           pool_max = or_default (max_opt p) (pool_max d),
           timeout = or_default (timeout_opt p) (timeout d),
           testOnBorrow = or_default (testOnBorrow_opt p) (testOnBorrow d)\<rparr>)"

text \<open>
  \<^verbatim>\<open>PageOptions\<close> (lines 31-46): every field is optional, \<open>None\<close> is a property the caller
  left out.
  The defaults (lines 48-51) leave \<^verbatim>\<open>ruleOptions\<close> out.
\<close>

record PageOptions =
  incognito :: "bool option"
  applyRulesToPopups :: "bool option"
  ruleOptions :: "rule_options option"

definition defaultPageOptions :: PageOptions where
  "defaultPageOptions =
     \<lparr>incognito = Some True, applyRulesToPopups = Some True, ruleOptions = None\<rparr>"

definition or_default_opt :: "'a option \<Rightarrow> 'a option \<Rightarrow> 'a option" where
  "or_default_opt supplied d = (case supplied of Some v \<Rightarrow> Some v | None \<Rightarrow> d)"

text \<open>\<^verbatim>\<open>{ ...defaultPageOptions, ...options }\<close> (line 96).\<close>

definition spreadPageOptions :: "PageOptions \<Rightarrow> PageOptions option \<Rightarrow> PageOptions" where
  "spreadPageOptions d options =
     (case options of
        None \<Rightarrow> d
      | Some p \<Rightarrow>
          \<lparr>incognito = or_default_opt (incognito p) (incognito d),
           applyRulesToPopups = or_default_opt (applyRulesToPopups p) (applyRulesToPopups d),
           ruleOptions = or_default_opt (ruleOptions p) (ruleOptions d)\<rparr>)"

subsection \<open>The factory (lines 72-85)\<close>

text \<open>
  \<open>t\<close> is the \<^verbatim>\<open>Date.now()\<close> that \<^verbatim>\<open>create\<close> reads once \<^verbatim>\<open>createBrowser()\<close> has resolved;
  the closure \<^verbatim>\<open>poolIsValid\<close> keeps it. \<open>now\<close> is the clock reading of the call at hand.
\<close>

record PoolBrowser =
  handle :: browser_id
  t :: int

definition factory_create ::
  "collaborators \<Rightarrow> int \<Rightarrow> call list \<Rightarrow> (thrown + PoolBrowser) \<times> call list" where
  "factory_create orc now log =
     (case perform orc CreateBrowser log of
        (Inl e, log1) \<Rightarrow> (Inl e, log1)
      | (Inr b, log1) \<Rightarrow> (Inr \<lparr>handle = b, t = now\<rparr>, log1))"

definition poolIsValid :: "PoolOptions \<Rightarrow> PoolBrowser \<Rightarrow> int \<Rightarrow> bool" where
  "poolIsValid po pb now = (now - t pb < timeout po)"

definition factory_validate :: "PoolOptions \<Rightarrow> PoolBrowser \<Rightarrow> int \<Rightarrow> bool" where
  "factory_validate po pb now = poolIsValid po pb now"

subsection \<open>createPool (lines 67-71, 87)\<close>

definition createPool_opts :: "PartialPoolOptions option \<Rightarrow> PoolOptions" where
  "createPool_opts options = spreadPoolOptions defaultPoolOptions options"








subsection \<open>acquirePage (lines 95-124)\<close>

text \<open>
  The variables that the closures \<^verbatim>\<open>release\<close> and the popup listener share. \<open>pages\<close> is
  the one that changes: the listener pushes to it and \<^verbatim>\<open>release\<close> reverses it in place.
  In the functions below the locals \<^verbatim>\<open>opts\<close>, \<^verbatim>\<open>browser\<close>, \<^verbatim>\<open>ingocnito\<close> and \<^verbatim>\<open>page\<close> of
  \<^verbatim>\<open>acquirePage\<close> are written \<open>eff\<close>, \<open>b\<close>, \<open>ctx\<close> and \<open>pg\<close>, the record's fields having
  taken their names.
\<close>

record session =
  opts :: PageOptions
  browser :: browser_id
  ingocnito :: "context_id option"
  page :: page_id
  pages :: "page_id list"

text \<open>\<^verbatim>\<open>page.setupRules = options => setupPageRules(page, options)\<close> (lines 113, 118).\<close>

definition setupRules ::
  "collaborators \<Rightarrow> page_id \<Rightarrow> rule_options \<Rightarrow> call list \<Rightarrow> (thrown + nat) \<times> call list" where
  "setupRules orc p options log = perform orc (SetupPageRules p options) log"

definition acquirePage ::
  "collaborators \<Rightarrow> PageOptions option \<Rightarrow> call list \<Rightarrow> (thrown + session) \<times> call list" where
  "acquirePage orc options log =
     (let eff = spreadPageOptions defaultPageOptions options in
      case perform orc PoolAcquire log of
        (Inl e, log1) \<Rightarrow> (Inl e, log1)
      | (Inr b, log1) \<Rightarrow>
          (case (if incognito eff = Some True
                 then (case perform orc (CreateIncognitoBrowserContext b) log1 of
                         (Inl e, log2) \<Rightarrow> (Inl e, log2)
                       | (Inr c, log2) \<Rightarrow> (Inr (Some c), log2))
                 else (Inr None, log1)) of
             (Inl e, log2) \<Rightarrow> (Inl e, log2)
           | (Inr ctx, log2) \<Rightarrow>
               (case perform orc
                       (NewPage (case ctx of Some c \<Rightarrow> OnContext c | None \<Rightarrow> OnBrowser b))
                       log2 of
                  (Inl e, log3) \<Rightarrow> (Inl e, log3)
                | (Inr pg, log3) \<Rightarrow>
                    (case (case ruleOptions eff of
                             Some r \<Rightarrow> setupRules orc pg r log3
                           | None \<Rightarrow> (Inr 0, log3)) of
                       (Inl e, log4) \<Rightarrow> (Inl e, log4)
                     | (Inr _, log4) \<Rightarrow>
                         (Inr \<lparr>opts = eff, browser = b, ingocnito = ctx,
                               page = pg, pages = [pg]\<rparr>,
                          log4 @ [PageOnPopup pg])))))"

subsection \<open>The popup listener (lines 116-121)\<close>

text \<open>
  The listener pushes the popup first and sets the rules up afterwards; it is an async
  function whose promise nobody awaits, so a throw of \<^verbatim>\<open>setupPageRules\<close> is lost and the
  popup stays in \<open>pages\<close>.
\<close>

definition on_popup :: "collaborators \<Rightarrow> session \<Rightarrow> page_id \<Rightarrow> call list \<Rightarrow> session \<times> call list" where
  "on_popup orc s p log =
     (let s' = s\<lparr>pages := pages s @ [p]\<rparr> in
      if applyRulesToPopups (opts s) = Some True
      then (case ruleOptions (opts s) of
              Some r \<Rightarrow> (s', snd (setupRules orc p r log))
            | None \<Rightarrow> (s', log))
      else (s', log))"

text \<open>
  Puppeteer emits \<^verbatim>\<open>popup\<close> on the page that opened the new page, and an emitter calls
  the listeners registered on itself. A popup event is the pair of the emitting page and
  the new page; line 116 registers the listener on the primary \<^verbatim>\<open>page\<close> and on nothing
  else.
\<close>

type_synonym popup_event = "page_id \<times> page_id"

definition emit_popup :: "collaborators \<Rightarrow> session \<Rightarrow> popup_event \<Rightarrow> call list \<Rightarrow> session \<times> call list" where
  "emit_popup orc s ev log =
     (if fst ev = page s then on_popup orc s (snd ev) log else (s, log))"

fun emit_popups :: "collaborators \<Rightarrow> session \<Rightarrow> popup_event list \<Rightarrow> call list \<Rightarrow> session \<times> call list" where
  "emit_popups orc s [] log = (s, log)"
| "emit_popups orc s (ev # evs) log =
     (case emit_popup orc s ev log of (s', log') \<Rightarrow> emit_popups orc s' evs log')"

subsection \<open>release (lines 105-111)\<close>

text \<open>
  First the run of \<^verbatim>\<open>release\<close> during which no popup is reported: the \<^verbatim>\<open>for\<close> loop of
  line 106 then runs over the reversed \<open>pages\<close> as they are when \<^verbatim>\<open>release\<close> is called. An
  \<^verbatim>\<open>await p.close()\<close> that throws ends the loop, and with it \<^verbatim>\<open>release\<close>. The general
  run, with popups reported while \<^verbatim>\<open>release\<close> is suspended, is \<open>release_live\<close> below.
\<close>

fun close_pages :: "collaborators \<Rightarrow> page_id list \<Rightarrow> call list \<Rightarrow> (thrown + unit) \<times> call list" where
  "close_pages orc [] log = (Inr (), log)"
| "close_pages orc (p # ps) log =
     (case perform orc (PageClose p) log of
        (Inl e, log') \<Rightarrow> (Inl e, log')
      | (Inr _, log') \<Rightarrow> close_pages orc ps log')"

definition release ::
  "collaborators \<Rightarrow> session \<Rightarrow> call list \<Rightarrow> (thrown + unit) \<times> session \<times> call list" where
  "release orc s log =
     (let s' = s\<lparr>pages := rev (pages s)\<rparr> in
      case close_pages orc (pages s') log of
        (Inl e, log1) \<Rightarrow> (Inl e, s', log1)
      | (Inr _, log1) \<Rightarrow>
          (case (case ingocnito s' of
                   Some c \<Rightarrow> perform orc (ContextClose c) log1
                 | None \<Rightarrow> (Inr 0, log1)) of
             (Inl e, log2) \<Rightarrow> (Inl e, s', log2)
           | (Inr _, log2) \<Rightarrow>
               (case perform orc (PoolRelease (browser s')) log2 of
                  (Inl e, log3) \<Rightarrow> (Inl e, s', log3)
                | (Inr _, log3) \<Rightarrow> (Inr (), s', log3))))"

subsection \<open>callPage (lines 126-133)\<close>

text \<open>
  The handler is the caller's: given the page and the calls so far it settles with a
  value or a throw, and while it runs the pages it drives may open popups. A handler
  that never settles, or that calls \<^verbatim>\<open>page.release()\<close> itself, is not modelled, and
  no popup is reported once the handler has settled. The
  \<^verbatim>\<open>finally\<close> block awaits \<^verbatim>\<open>page.release()\<close>; when that throws, its error replaces the
  completion of the \<^verbatim>\<open>try\<close> block.
\<close>

type_synonym 'a handler = "page_id \<Rightarrow> call list \<Rightarrow> (thrown + 'a) \<times> popup_event list"

definition callPage ::
  "collaborators \<Rightarrow> PageOptions option \<Rightarrow> 'a handler \<Rightarrow> call list \<Rightarrow> (thrown + 'a) \<times> call list" where
  "callPage orc options handler log =
     (case acquirePage orc options log of
        (Inl e, log1) \<Rightarrow> (Inl e, log1)
      | (Inr s, log1) \<Rightarrow>
          (case handler (page s) (log1 @ [HandlerCall (page s)]) of
             (r, popups) \<Rightarrow>
               (case emit_popups orc s popups (log1 @ [HandlerCall (page s)]) of
                  (s2, log2) \<Rightarrow>
                    (case release orc s2 log2 of
                       (Inl e, s3, log3) \<Rightarrow> (Inl e, log3)
                     | (Inr _, s3, log3) \<Rightarrow> (r, log3)))))"

subsection \<open>Sequences of calls\<close>

text \<open>
  Calls made one after the other, each awaited, up to the first that throws. It is the
  shape of \<^verbatim>\<open>release\<close>, and the lemmas below compare \<^verbatim>\<open>release\<close> with it.
\<close>

fun run_calls :: "collaborators \<Rightarrow> call list \<Rightarrow> call list \<Rightarrow> (thrown + unit) \<times> call list" where
  "run_calls orc [] log = (Inr (), log)"
| "run_calls orc (c # cs) log =
     (case perform orc c log of
        (Inl e, log') \<Rightarrow> (Inl e, log')
      | (Inr _, log') \<Rightarrow> run_calls orc cs log')"

text \<open>
  The teardown in the spec's words: every tracked child, most recently registered first,
  then the isolated context if one was created, then the browser back to the pool.
\<close>

definition teardown_calls :: "session \<Rightarrow> call list" where
  "teardown_calls s =
     map PageClose (rev (pages s))
     @ (case ingocnito s of Some c \<Rightarrow> [ContextClose c] | None \<Rightarrow> [])
     @ [PoolRelease (browser s)]"

text \<open>
  The rule set-ups that a run of popup events asks for, in the spec's words: one for each
  popup reported on the primary page, when \<^verbatim>\<open>applyRulesToPopups\<close> and \<^verbatim>\<open>ruleOptions\<close> are set.
\<close>

definition popup_rule_calls :: "session \<Rightarrow> popup_event list \<Rightarrow> call list" where
  "popup_rule_calls s evs =
     concat (map (\<lambda>ev. if fst ev = page s \<and> applyRulesToPopups (opts s) = Some True
                         then (case ruleOptions (opts s) of
                                 Some r \<Rightarrow> [SetupPageRules (snd ev) r]
                               | None \<Rightarrow> [])
                         else []) evs)"

subsection \<open>release while popups are reported\<close>



text \<open>What a run of popup events does to the session and to the log.\<close>

lemma emit_popups_fields:
  "emit_popups orc s evs log = (s2, log2) \<Longrightarrow>
     opts s2 = opts s \<and> browser s2 = browser s \<and> ingocnito s2 = ingocnito s \<and> page s2 = page s
     \<and> pages s2 = pages s @ map snd (filter (\<lambda>ev. fst ev = page s) evs)"
proof (induction evs arbitrary: s log)
  case Nil
  then show ?case by simp
next
  case (Cons ev evs)
  obtain s1 log1 where step: "emit_popup orc s ev log = (s1, log1)" by (cases "emit_popup orc s ev log")
  then have s1: "opts s1 = opts s" "browser s1 = browser s" "ingocnito s1 = ingocnito s" "page s1 = page s"
    "pages s1 = pages s @ (if fst ev = page s then [snd ev] else [])"
    by (auto simp: emit_popup_def on_popup_def Let_def split: if_splits option.splits)
  from Cons.prems step have "emit_popups orc s1 evs log1 = (s2, log2)" by simp
  from Cons.IH[OF this] s1 show ?case by simp
qed

lemma emit_popups_log:
  "snd (emit_popups orc s evs log) = log @ popup_rule_calls s evs"
proof (induction evs arbitrary: s log)
  case Nil
  then show ?case by (simp add: popup_rule_calls_def)
next
  case (Cons ev evs)
  obtain s1 log1 where step: "emit_popup orc s ev log = (s1, log1)" by (cases "emit_popup orc s ev log")
  then have s1: "opts s1 = opts s" "page s1 = page s"
    and log1: "log1 = log @ popup_rule_calls s [ev]"
    by (auto simp: emit_popup_def on_popup_def setupRules_def perform_def popup_rule_calls_def Let_def
          split: if_splits option.splits)
  have same: "popup_rule_calls s1 evs = popup_rule_calls s evs"
    unfolding popup_rule_calls_def s1 by (rule refl)
  have "snd (emit_popups orc s (ev # evs) log) = snd (emit_popups orc s1 evs log1)"
    using step by simp
  also have "\<dots> = log1 @ popup_rule_calls s1 evs" by (rule Cons.IH)
  finally show ?case using log1 same by (simp add: popup_rule_calls_def)
qed







subsection \<open>Collaborators for the examples\<close>

text \<open>
  Collaborators that never throw: the pool hands out browser 1, the browser makes
  context 2, and every new page is page 3. With \<open>close_throws p\<close> closing page \<open>p\<close> throws
  13 and everything else is as before.
\<close>

definition all_succeed :: collaborators where
  "all_succeed log c =
     (case c of
        PoolAcquire \<Rightarrow> Inr 1
      | CreateIncognitoBrowserContext b \<Rightarrow> Inr 2
      | NewPage w \<Rightarrow> Inr 3
      | _ \<Rightarrow> Inr 0)"

definition close_throws :: "page_id \<Rightarrow> collaborators" where
  "close_throws p log c = (if c = PageClose p then Inl 13 else all_succeed log c)"

text \<open>A handler during which the primary page opens popup 4 and which then throws 42.\<close>

definition throwing_handler :: "nat handler" where
  "throwing_handler p log = (Inl 42, [(p, 4)])"

text \<open>A handler that opens no popup and returns 9.\<close>

definition returning_handler :: "nat handler" where
  "returning_handler p log = (Inr 9, [])"

section \<open>Properties\<close>

subsection \<open>Options and the factory\<close>

text \<open>
  C9. With no options the effective configuration is the defaults (autostart, min 0, max 5,
  timeout 30000, testOnBorrow; incognito, applyRulesToPopups, no ruleOptions), and a field
  of the effective configuration is the caller's value for that field when there is one
  and the default otherwise, whatever the other fields are.
\<close>

theorem default_options_effective:
  "createPool_opts None =
     \<lparr>autostart = True, pool_min = 0, pool_max = 5, timeout = 30000, testOnBorrow = True\<rparr>
   \<and> spreadPageOptions defaultPageOptions None =
     \<lparr>incognito = Some True, applyRulesToPopups = Some True, ruleOptions = None\<rparr>
   \<and> autostart (createPool_opts (Some p)) = (case autostart_opt p of Some v \<Rightarrow> v | None \<Rightarrow> True)
   \<and> pool_min (createPool_opts (Some p)) = (case min_opt p of Some v \<Rightarrow> v | None \<Rightarrow> 0)
   \<and> pool_max (createPool_opts (Some p)) = (case max_opt p of Some v \<Rightarrow> v | None \<Rightarrow> 5)
   \<and> timeout (createPool_opts (Some p)) = (case timeout_opt p of Some v \<Rightarrow> v | None \<Rightarrow> 30000)
   \<and> testOnBorrow (createPool_opts (Some p)) =
       (case testOnBorrow_opt p of Some v \<Rightarrow> v | None \<Rightarrow> True)
   \<and> incognito (spreadPageOptions defaultPageOptions (Some q)) =
       (case incognito q of Some v \<Rightarrow> Some v | None \<Rightarrow> Some True)
   \<and> applyRulesToPopups (spreadPageOptions defaultPageOptions (Some q)) =
       (case applyRulesToPopups q of Some v \<Rightarrow> Some v | None \<Rightarrow> Some True)
   \<and> ruleOptions (spreadPageOptions defaultPageOptions (Some q)) = ruleOptions q"
  by (simp add: createPool_opts_def spreadPoolOptions_def spreadPageOptions_def
        defaultPoolOptions_def defaultPageOptions_def or_default_def or_default_opt_def
      split: option.splits)

text \<open>
  C7. A browser that the factory created at clock reading \<open>t0\<close> carries \<open>t0\<close>; its
  \<^verbatim>\<open>poolIsValid\<close> is true at clock reading \<open>now\<close> exactly when \<open>now - t0\<close> is strictly less
  than the configured timeout, and the \<^verbatim>\<open>validate\<close> hook returns that value.
\<close>

theorem poolIsValid_iff_fresh:
  assumes "factory_create orc t0 log = (Inr pb, log')"
  shows "t pb = t0
       \<and> (poolIsValid (createPool_opts options) pb now
            \<longleftrightarrow> now - t0 < timeout (createPool_opts options))
       \<and> factory_validate (createPool_opts options) pb now
            = poolIsValid (createPool_opts options) pb now"
  using assms
  by (auto simp: factory_create_def perform_def poolIsValid_def factory_validate_def
        split: sum.splits)

theorem poolIsValid_iff_fresh_witness:
  "factory_create all_succeed 1000 [] = (Inr \<lparr>handle = 0, t = 1000\<rparr>, [CreateBrowser])
   \<and> poolIsValid (createPool_opts None) \<lparr>handle = 0, t = 1000\<rparr> 30999
   \<and> \<not> poolIsValid (createPool_opts None) \<lparr>handle = 0, t = 1000\<rparr> 31000
   \<and> factory_validate (createPool_opts None) \<lparr>handle = 0, t = 1000\<rparr> 30999"
proof -
  have made: "factory_create all_succeed 1000 [] = (Inr \<lparr>handle = 0, t = 1000\<rparr>, [CreateBrowser])"
    by (simp add: factory_create_def perform_def all_succeed_def)
  have tm: "timeout (createPool_opts None) = 30000"
    by (simp add: createPool_opts_def spreadPoolOptions_def defaultPoolOptions_def)
  show ?thesis
    using made tm
      poolIsValid_iff_fresh [OF made, of None 30999]
      poolIsValid_iff_fresh [OF made, of None 31000]
    by simp
qed



subsection \<open>Sessions\<close>

lemma close_pages_run_calls: "close_pages orc ps log = run_calls orc (map PageClose ps) log"
  by (induction ps arbitrary: log) (auto split: prod.splits sum.splits)

lemma run_calls_append:
  "run_calls orc (xs @ ys) log =
     (case run_calls orc xs log of
        (Inl e, log') \<Rightarrow> (Inl e, log')
      | (Inr _, log') \<Rightarrow> run_calls orc ys log')"
  by (induction xs arbitrary: log) (auto split: prod.splits sum.splits)

lemma run_calls_ok: "run_calls orc cs log = (Inr u, log') \<Longrightarrow> log' = log @ cs"
proof (induction cs arbitrary: log)
  case Nil
  then show ?case by simp
next
  case (Cons c cs)
  from Cons.prems have "run_calls orc cs (log @ [c]) = (Inr u, log')"
    by (auto simp: perform_def split: sum.splits)
  from Cons.IH[OF this] show ?case by simp
qed

lemma run_calls_failed:
  "run_calls orc cs log = (Inl e, log') \<Longrightarrow>
   \<exists>k < length cs. log' = log @ take (Suc k) cs \<and> orc (log @ take k cs) (cs ! k) = Inl e"
proof (induction cs arbitrary: log)
  case Nil
  then show ?case by simp
next
  case (Cons c cs)
  show ?case
  proof (cases "orc log c")
    case (Inl e')
    with Cons.prems have "e' = e" "log' = log @ [c]" by (auto simp: perform_def)
    with Inl show ?thesis by (intro exI[of _ 0]) simp
  next
    case (Inr v)
    with Cons.prems have "run_calls orc cs (log @ [c]) = (Inl e, log')" by (simp add: perform_def)
    from Cons.IH[OF this] obtain k where "k < length cs" "log' = (log @ [c]) @ take (Suc k) cs"
      "orc ((log @ [c]) @ take k cs) (cs ! k) = Inl e" by blast
    then show ?thesis by (intro exI[of _ "Suc k"]) simp
  qed
qed

lemma release_run_calls:
  "release orc s log =
     (fst (run_calls orc (teardown_calls s) log), s\<lparr>pages := rev (pages s)\<rparr>,
      snd (run_calls orc (teardown_calls s) log))"
  by (auto simp: release_def teardown_calls_def close_pages_run_calls run_calls_append perform_def Let_def
        split: prod.splits sum.splits option.splits)

lemma run_calls_all_ok:
  "(\<And>k. k < length cs \<Longrightarrow> \<exists>v. orc (log @ take k cs) (cs ! k) = Inr v) \<Longrightarrow>
   run_calls orc cs log = (Inr (), log @ cs)"
proof (induction cs arbitrary: log)
  case Nil
  then show ?case by simp
next
  case (Cons c cs)
  from Cons.prems[of 0] obtain v where v: "orc log c = Inr v" by auto
  have "run_calls orc cs (log @ [c]) = (Inr (), (log @ [c]) @ cs)"
  proof (rule Cons.IH)
    fix k assume "k < length cs"
    with Cons.prems[of "Suc k"] show "\<exists>v. orc ((log @ [c]) @ take k cs) (cs ! k) = Inr v" by simp
  qed
  with v show ?case by (simp add: perform_def)
qed

lemma run_calls_first_throw:
  "k < length cs \<Longrightarrow> orc (log @ take k cs) (cs ! k) = Inl e \<Longrightarrow>
   (\<And>j. j < k \<Longrightarrow> \<exists>v. orc (log @ take j cs) (cs ! j) = Inr v) \<Longrightarrow>
   run_calls orc cs log = (Inl e, log @ take (Suc k) cs)"
proof (induction cs arbitrary: log k)
  case Nil
  then show ?case by simp
next
  case (Cons c cs)
  show ?case
  proof (cases k)
    case 0
    with Cons.prems show ?thesis by (simp add: perform_def)
  next
    case (Suc k')
    from Cons.prems(3)[of 0] Suc obtain v where v: "orc log c = Inr v" by auto
    have "run_calls orc cs (log @ [c]) = (Inl e, (log @ [c]) @ take (Suc k') cs)"
    proof (rule Cons.IH)
      show "k' < length cs" using Cons.prems(1) Suc by simp
      show "orc ((log @ [c]) @ take k' cs) (cs ! k') = Inl e" using Cons.prems(2) Suc by simp
      fix j assume "j < k'"
      with Cons.prems(3)[of "Suc j"] Suc show "\<exists>v. orc ((log @ [c]) @ take j cs) (cs ! j) = Inr v" by simp
    qed
    with v Suc show ?thesis by (simp add: perform_def)
  qed
qed

lemma PoolRelease_last_only:
  "Suc k < length (teardown_calls s) \<Longrightarrow> PoolRelease b \<notin> set (take (Suc k) (teardown_calls s))"
  by (auto simp: teardown_calls_def split: option.splits dest!: in_set_takeD)

text \<open>
  C1, as the code has it. \<^verbatim>\<open>release\<close> makes its teardown calls one after the other and
  stops at the first that throws. When none of them throws, every tracked child is
  closed, the context (if any) is closed and the browser goes back with
  \<^verbatim>\<open>pool.release(browser)\<close>. When the call at position \<open>k\<close> is the first to throw,
  \<^verbatim>\<open>release\<close> rejects with what it threw and nothing after position \<open>k\<close> is attempted: if
  that call is a page or context close, \<^verbatim>\<open>pool.release(browser)\<close> is not reached.
\<close>

theorem release_stops_at_first_throw:
  "((\<forall>k < length (teardown_calls s).
        \<exists>v. orc (log @ take k (teardown_calls s)) (teardown_calls s ! k) = Inr v) \<longrightarrow>
      release orc s log = (Inr (), s\<lparr>pages := rev (pages s)\<rparr>, log @ teardown_calls s))
   \<and> (k < length (teardown_calls s)
        \<and> orc (log @ take k (teardown_calls s)) (teardown_calls s ! k) = Inl e
        \<and> (\<forall>j < k. \<exists>v. orc (log @ take j (teardown_calls s)) (teardown_calls s ! j) = Inr v) \<longrightarrow>
      release orc s log =
        (Inl e, s\<lparr>pages := rev (pages s)\<rparr>, log @ take (Suc k) (teardown_calls s))
      \<and> (Suc k < length (teardown_calls s) \<longrightarrow>
           PoolRelease (browser s) \<notin> set (take (Suc k) (teardown_calls s))))"
proof (intro conjI impI)
  assume "\<forall>k < length (teardown_calls s).
        \<exists>v. orc (log @ take k (teardown_calls s)) (teardown_calls s ! k) = Inr v"
  then have "run_calls orc (teardown_calls s) log = (Inr (), log @ teardown_calls s)"
    by (intro run_calls_all_ok) blast
  then show "release orc s log = (Inr (), s\<lparr>pages := rev (pages s)\<rparr>, log @ teardown_calls s)"
    by (simp add: release_run_calls)
next
  assume a: "k < length (teardown_calls s)
        \<and> orc (log @ take k (teardown_calls s)) (teardown_calls s ! k) = Inl e
        \<and> (\<forall>j < k. \<exists>v. orc (log @ take j (teardown_calls s)) (teardown_calls s ! j) = Inr v)"
  then have "run_calls orc (teardown_calls s) log = (Inl e, log @ take (Suc k) (teardown_calls s))"
    by (intro run_calls_first_throw) blast+
  then show "release orc s log =
        (Inl e, s\<lparr>pages := rev (pages s)\<rparr>, log @ take (Suc k) (teardown_calls s))"
    by (simp add: release_run_calls)
next
  assume "Suc k < length (teardown_calls s)"
  then show "PoolRelease (browser s) \<notin> set (take (Suc k) (teardown_calls s))"
    by (rule PoolRelease_last_only)
qed

theorem release_stops_at_first_throw_witness:
  "release all_succeed
     \<lparr>opts = defaultPageOptions, browser = 1, ingocnito = Some 2, page = 3, pages = [3, 4]\<rparr> []
     = (Inr (),
        \<lparr>opts = defaultPageOptions, browser = 1, ingocnito = Some 2, page = 3, pages = [4, 3]\<rparr>,
        [PageClose 4, PageClose 3, ContextClose 2, PoolRelease 1])
   \<and> release (close_throws 3)
     \<lparr>opts = defaultPageOptions, browser = 1, ingocnito = Some 2, page = 3, pages = [3, 4]\<rparr> []
     = (Inl 13,
        \<lparr>opts = defaultPageOptions, browser = 1, ingocnito = Some 2, page = 3, pages = [4, 3]\<rparr>,
        [PageClose 4, PageClose 3])
   \<and> PoolRelease 1 \<notin> set [PageClose 4, PageClose 3]"
proof -
  let ?s = "\<lparr>opts = defaultPageOptions, browser = 1, ingocnito = Some 2, page = 3, pages = [3, 4]\<rparr>"
  have td: "teardown_calls ?s = [PageClose 4, PageClose 3, ContextClose 2, PoolRelease 1]"
    by (simp add: teardown_calls_def)
  have calm: "\<forall>k < length (teardown_calls ?s).
      \<exists>v. all_succeed ([] @ take k (teardown_calls ?s)) (teardown_calls ?s ! k) = Inr v"
    unfolding td by (simp add: all_succeed_def less_Suc_eq nth_Cons' all_conj_distrib)
  have first: "(1::nat) < length (teardown_calls ?s)
      \<and> close_throws 3 ([] @ take 1 (teardown_calls ?s)) (teardown_calls ?s ! 1) = Inl 13
      \<and> (\<forall>j < 1. \<exists>v. close_throws 3 ([] @ take j (teardown_calls ?s)) (teardown_calls ?s ! j) = Inr v)"
    unfolding td by (simp add: close_throws_def all_succeed_def)
  have more: "Suc 1 < length (teardown_calls ?s)"
    unfolding td by simp
  show ?thesis
    using release_stops_at_first_throw [of ?s all_succeed "[]" 0 0] calm
      release_stops_at_first_throw [of ?s "close_throws 3" "[]" 1 13] first more
    unfolding td by simp
qed

theorem release_abandons_teardown_counterexample:
  "acquirePage (close_throws 5) None []
     = (Inr \<lparr>opts = defaultPageOptions, browser = 1, ingocnito = Some 2, page = 3, pages = [3]\<rparr>,
        [PoolAcquire, CreateIncognitoBrowserContext 1, NewPage (OnContext 2), PageOnPopup 3])
   \<and> emit_popups (close_throws 5)
        \<lparr>opts = defaultPageOptions, browser = 1, ingocnito = Some 2, page = 3, pages = [3]\<rparr>
        [(3, 4), (3, 5)] []
     = (\<lparr>opts = defaultPageOptions, browser = 1, ingocnito = Some 2, page = 3, pages = [3, 4, 5]\<rparr>,
        [])
   \<and> release (close_throws 5)
        \<lparr>opts = defaultPageOptions, browser = 1, ingocnito = Some 2, page = 3, pages = [3, 4, 5]\<rparr>
        []
     = (Inl 13,
        \<lparr>opts = defaultPageOptions, browser = 1, ingocnito = Some 2, page = 3, pages = [5, 4, 3]\<rparr>,
        [PageClose 5])"
  by (simp add: acquirePage_def emit_popup_def on_popup_def release_def perform_def
        setupRules_def close_throws_def all_succeed_def spreadPageOptions_def
        defaultPageOptions_def)

lemma acquirePage_ok:
  assumes "acquirePage orc options log = (Inr s, log')"
  shows "opts s = spreadPageOptions defaultPageOptions options"
    and "orc log PoolAcquire = Inr (browser s)"
    and "pages s = [page s]"
    and "incognito (opts s) = Some True \<Longrightarrow>
           \<exists>c. ingocnito s = Some c
             \<and> orc (log @ [PoolAcquire]) (CreateIncognitoBrowserContext (browser s)) = Inr c
             \<and> orc (log @ [PoolAcquire, CreateIncognitoBrowserContext (browser s)])
                   (NewPage (OnContext c)) = Inr (page s)
             \<and> log' = log @ [PoolAcquire, CreateIncognitoBrowserContext (browser s),
                              NewPage (OnContext c)]
                        @ (case ruleOptions (opts s) of
                             Some r \<Rightarrow> [SetupPageRules (page s) r] | None \<Rightarrow> [])
                        @ [PageOnPopup (page s)]"
    and "incognito (opts s) \<noteq> Some True \<Longrightarrow>
           ingocnito s = None
             \<and> orc (log @ [PoolAcquire]) (NewPage (OnBrowser (browser s))) = Inr (page s)
             \<and> log' = log @ [PoolAcquire, NewPage (OnBrowser (browser s))]
                        @ (case ruleOptions (opts s) of
                             Some r \<Rightarrow> [SetupPageRules (page s) r] | None \<Rightarrow> [])
                        @ [PageOnPopup (page s)]"
  using assms
  by (auto simp: acquirePage_def perform_def setupRules_def Let_def
        split: sum.splits if_splits option.splits prod.splits)


lemma run_calls_prefix:
  "\<exists>k \<le> length cs. snd (run_calls orc cs log) = log @ take k cs"
proof (cases "run_calls orc cs log")
  case (Pair r log')
  show ?thesis
  proof (cases r)
    case (Inl e)
    with Pair run_calls_failed[of orc cs log e log'] obtain k where
      "k < length cs" "log' = log @ take (Suc k) cs" by blast
    with Pair show ?thesis by (intro exI[of _ "Suc k"]) simp
  next
    case (Inr u)
    with Pair run_calls_ok[of orc cs log u log'] have "log' = log @ cs" by simp
    with Pair show ?thesis by (intro exI[of _ "length cs"]) simp
  qed
qed

lemma release_prefix:
  assumes "release orc s log = (r, s', log')"
  shows "\<exists>k \<le> length (teardown_calls s). log' = log @ take k (teardown_calls s)"
  using assms run_calls_prefix[of "teardown_calls s" orc log] by (simp add: release_run_calls)

lemma release_ok:
  assumes "release orc s log = (Inr u, s', log')"
  shows "log' = log @ teardown_calls s" and "s' = s\<lparr>pages := rev (pages s)\<rparr>"
proof -
  from assms have "run_calls orc (teardown_calls s) log = (Inr u, log')"
    by (simp add: release_run_calls prod_eq_iff)
  then show "log' = log @ teardown_calls s" by (rule run_calls_ok)
  from assms show "s' = s\<lparr>pages := rev (pages s)\<rparr>" by (simp add: release_run_calls)
qed

lemma release_failed:
  assumes "release orc s log = (Inl e, s', log')"
  shows "\<exists>k < length (teardown_calls s). log' = log @ take (Suc k) (teardown_calls s)
           \<and> orc (log @ take k (teardown_calls s)) (teardown_calls s ! k) = Inl e"
proof -
  from assms have "run_calls orc (teardown_calls s) log = (Inl e, log')"
    by (simp add: release_run_calls prod_eq_iff)
  then show ?thesis by (rule run_calls_failed)
qed

text \<open>
  C6. An \<^verbatim>\<open>acquirePage\<close> that resolves has made these calls and no others, in this order:
  \<^verbatim>\<open>pool.acquire()\<close>, which gave the browser; when \<^verbatim>\<open>incognito\<close> is left out or true, and
  only then, \<^verbatim>\<open>createIncognitoBrowserContext()\<close> on that browser, which gave the context; one
  \<^verbatim>\<open>newPage()\<close>, on the context if there is one and on the browser otherwise, which gave the
  primary page, the only tracked page; \<^verbatim>\<open>setupPageRules\<close> on the primary page when
  \<^verbatim>\<open>ruleOptions\<close> is set, whatever \<^verbatim>\<open>incognito\<close> is; and the registration of the popup
  listener.
\<close>

theorem acquirePage_steps:
  assumes "acquirePage orc options log = (Inr s, log')"
  shows "orc log PoolAcquire = Inr (browser s)
       \<and> ((case options of None \<Rightarrow> True | Some p \<Rightarrow> incognito p \<noteq> Some False)
            \<longleftrightarrow> (\<exists>c. ingocnito s = Some c))
       \<and> (\<forall>c. ingocnito s = Some c \<longrightarrow>
            orc (log @ [PoolAcquire]) (CreateIncognitoBrowserContext (browser s)) = Inr c)
       \<and> orc (log @ [PoolAcquire]
                  @ (case ingocnito s of
                       Some c \<Rightarrow> [CreateIncognitoBrowserContext (browser s)] | None \<Rightarrow> []))
              (NewPage (case ingocnito s of
                          Some c \<Rightarrow> OnContext c | None \<Rightarrow> OnBrowser (browser s)))
           = Inr (page s)
       \<and> pages s = [page s]
       \<and> log' = log @ [PoolAcquire]
                  @ (case ingocnito s of
                       Some c \<Rightarrow> [CreateIncognitoBrowserContext (browser s), NewPage (OnContext c)]
                     | None \<Rightarrow> [NewPage (OnBrowser (browser s))])
                  @ (case options of
                       None \<Rightarrow> []
                     | Some p \<Rightarrow> (case ruleOptions p of
                                    Some r \<Rightarrow> [SetupPageRules (page s) r]
                                  | None \<Rightarrow> []))
                  @ [PageOnPopup (page s)]"
proof -
  note ok = acquirePage_ok[OF assms]
  have inc: "(case options of None \<Rightarrow> True | Some p \<Rightarrow> incognito p \<noteq> Some False)
               \<longleftrightarrow> incognito (opts s) = Some True"
    using ok(1)
    by (auto simp: spreadPageOptions_def defaultPageOptions_def or_default_opt_def
          split: option.splits)
  have ro: "ruleOptions (opts s) = (case options of None \<Rightarrow> None | Some p \<Rightarrow> ruleOptions p)"
    using ok(1)
    by (simp add: spreadPageOptions_def defaultPageOptions_def or_default_opt_def
          split: option.splits)
  show ?thesis
  proof (cases "incognito (opts s) = Some True")
    case True
    from ok(4)[OF True] obtain c where c: "ingocnito s = Some c"
      "orc (log @ [PoolAcquire]) (CreateIncognitoBrowserContext (browser s)) = Inr c"
      "orc (log @ [PoolAcquire, CreateIncognitoBrowserContext (browser s)])
           (NewPage (OnContext c)) = Inr (page s)"
      "log' = log @ [PoolAcquire, CreateIncognitoBrowserContext (browser s), NewPage (OnContext c)]
                @ (case ruleOptions (opts s) of
                     Some r \<Rightarrow> [SetupPageRules (page s) r] | None \<Rightarrow> [])
                @ [PageOnPopup (page s)]"
      by blast
    with True inc ro ok(2,3) show ?thesis by (simp split: option.splits)
  next
    case False
    from ok(5)[OF False] have d: "ingocnito s = None"
      "orc (log @ [PoolAcquire]) (NewPage (OnBrowser (browser s))) = Inr (page s)"
      "log' = log @ [PoolAcquire, NewPage (OnBrowser (browser s))]
                @ (case ruleOptions (opts s) of
                     Some r \<Rightarrow> [SetupPageRules (page s) r] | None \<Rightarrow> [])
                @ [PageOnPopup (page s)]"
      by blast+
    with False inc ro ok(2,3) show ?thesis by (simp split: option.splits)
  qed
qed

theorem acquirePage_steps_witness:
  "acquirePage all_succeed
     (Some \<lparr>incognito = None, applyRulesToPopups = None, ruleOptions = Some 7\<rparr>) []
     = (Inr \<lparr>opts = \<lparr>incognito = Some True, applyRulesToPopups = Some True, ruleOptions = Some 7\<rparr>,
             browser = 1, ingocnito = Some 2, page = 3, pages = [3]\<rparr>,
        [PoolAcquire, CreateIncognitoBrowserContext 1, NewPage (OnContext 2),
         SetupPageRules 3 7, PageOnPopup 3])
   \<and> all_succeed [PoolAcquire] (CreateIncognitoBrowserContext 1) = Inr 2
   \<and> all_succeed [PoolAcquire, CreateIncognitoBrowserContext 1] (NewPage (OnContext 2)) = Inr 3
   \<and> acquirePage all_succeed
     (Some \<lparr>incognito = Some False, applyRulesToPopups = None, ruleOptions = Some 7\<rparr>) []
     = (Inr \<lparr>opts = \<lparr>incognito = Some False, applyRulesToPopups = Some True,
                      ruleOptions = Some 7\<rparr>,
             browser = 1, ingocnito = None, page = 3, pages = [3]\<rparr>,
        [PoolAcquire, NewPage (OnBrowser 1), SetupPageRules 3 7, PageOnPopup 3])
   \<and> all_succeed [PoolAcquire] (NewPage (OnBrowser 1)) = Inr 3"
proof -
  have run: "acquirePage all_succeed
     (Some \<lparr>incognito = None, applyRulesToPopups = None, ruleOptions = Some 7\<rparr>) []
     = (Inr \<lparr>opts = \<lparr>incognito = Some True, applyRulesToPopups = Some True, ruleOptions = Some 7\<rparr>,
             browser = 1, ingocnito = Some 2, page = 3, pages = [3]\<rparr>,
        [PoolAcquire, CreateIncognitoBrowserContext 1, NewPage (OnContext 2),
         SetupPageRules 3 7, PageOnPopup 3])"
    by (simp add: acquirePage_def perform_def setupRules_def all_succeed_def
          spreadPageOptions_def defaultPageOptions_def or_default_opt_def)
  have direct: "acquirePage all_succeed
     (Some \<lparr>incognito = Some False, applyRulesToPopups = None, ruleOptions = Some 7\<rparr>) []
     = (Inr \<lparr>opts = \<lparr>incognito = Some False, applyRulesToPopups = Some True,
                      ruleOptions = Some 7\<rparr>,
             browser = 1, ingocnito = None, page = 3, pages = [3]\<rparr>,
        [PoolAcquire, NewPage (OnBrowser 1), SetupPageRules 3 7, PageOnPopup 3])"
    by (simp add: acquirePage_def perform_def setupRules_def all_succeed_def
          spreadPageOptions_def defaultPageOptions_def or_default_opt_def)
  show ?thesis
    using run direct acquirePage_steps [OF run] acquirePage_steps [OF direct] by simp
qed

lemma acquirePage_no_context:
  assumes "incognito p = Some False"
  shows "CreateIncognitoBrowserContext b \<notin> set (drop (length log) (snd (acquirePage orc (Some p) log)))"
proof -
  have "incognito (spreadPageOptions defaultPageOptions (Some p)) \<noteq> Some True"
    using assms by (simp add: spreadPageOptions_def or_default_opt_def)
  then show ?thesis
    by (auto simp: acquirePage_def perform_def setupRules_def Let_def
          split: sum.splits option.splits)
qed

text \<open>
  C10. With \<^verbatim>\<open>incognito: false\<close>, \<^verbatim>\<open>acquirePage\<close> never calls
  \<^verbatim>\<open>createIncognitoBrowserContext\<close>, whether it resolves or not; when it resolves the session
  has no context and the primary page was made by \<^verbatim>\<open>newPage()\<close> on the browser itself.
  Whatever popups were tracked since, the calls of \<^verbatim>\<open>release\<close> are then an initial part of:
  close the tracked pages, most recent first, and \<^verbatim>\<open>pool.release(browser)\<close>; all of it when
  \<^verbatim>\<open>release\<close> resolves. There is no context close and no other call.
\<close>

theorem no_incognito_release_frame:
  assumes "incognito p = Some False"
      and "acquirePage orc (Some p) log = (Inr s, log1)"
      and "emit_popups orc s evs logA = (s2, log2)"
      and "release orc s2 logB = (r, s3, log3)"
  shows "ingocnito s = None
       \<and> orc (log @ [PoolAcquire]) (NewPage (OnBrowser (browser s))) = Inr (page s)
       \<and> (\<forall>b. CreateIncognitoBrowserContext b \<notin> set (drop (length log) log1))
       \<and> (\<exists>k. log3 = logB @ take k (map PageClose (rev (pages s2)) @ [PoolRelease (browser s)]))
       \<and> (r = Inr () \<longrightarrow>
            log3 = logB @ map PageClose (rev (pages s2)) @ [PoolRelease (browser s)])"
proof -
  note ok = acquirePage_ok[OF assms(2)]
  have inc: "incognito (opts s) \<noteq> Some True"
    using assms(1) ok(1) by (simp add: spreadPageOptions_def or_default_opt_def)
  note direct = ok(5)[OF inc]
  from emit_popups_fields[OF assms(3)] direct
  have s2: "ingocnito s2 = None" "browser s2 = browser s" by simp_all
  then have td: "teardown_calls s2 = map PageClose (rev (pages s2)) @ [PoolRelease (browser s)]"
    by (simp add: teardown_calls_def)
  have none: "\<forall>b. CreateIncognitoBrowserContext b \<notin> set (drop (length log) log1)"
    using acquirePage_no_context[OF assms(1), of _ log orc] assms(2) by simp
  from release_prefix[OF assms(4)] td
  have pre: "\<exists>k. log3 = logB @ take k (map PageClose (rev (pages s2)) @ [PoolRelease (browser s)])"
    by auto
  have full: "r = Inr () \<longrightarrow>
            log3 = logB @ map PageClose (rev (pages s2)) @ [PoolRelease (browser s)]"
    using release_ok(1)[of orc s2 logB "()" s3 log3] assms(4) td by simp
  from direct none pre full show ?thesis by blast
qed

theorem no_incognito_release_frame_witness:
  "acquirePage all_succeed
     (Some \<lparr>incognito = Some False, applyRulesToPopups = None, ruleOptions = None\<rparr>) []
     = (Inr \<lparr>opts = \<lparr>incognito = Some False, applyRulesToPopups = Some True, ruleOptions = None\<rparr>,
             browser = 1, ingocnito = None, page = 3, pages = [3]\<rparr>,
        [PoolAcquire, NewPage (OnBrowser 1), PageOnPopup 3])
   \<and> release all_succeed
        \<lparr>opts = \<lparr>incognito = Some False, applyRulesToPopups = Some True, ruleOptions = None\<rparr>,
          browser = 1, ingocnito = None, page = 3, pages = [3, 4]\<rparr>
        [PoolAcquire, NewPage (OnBrowser 1), PageOnPopup 3]
     = (Inr (),
        \<lparr>opts = \<lparr>incognito = Some False, applyRulesToPopups = Some True, ruleOptions = None\<rparr>,
          browser = 1, ingocnito = None, page = 3, pages = [4, 3]\<rparr>,
        [PoolAcquire, NewPage (OnBrowser 1), PageOnPopup 3, PageClose 4, PageClose 3, PoolRelease 1])"
proof -
  let ?p = "\<lparr>incognito = Some False, applyRulesToPopups = None, ruleOptions = None\<rparr>"
  let ?o = "\<lparr>incognito = Some False, applyRulesToPopups = Some True, ruleOptions = None\<rparr>"
  let ?s = "\<lparr>opts = ?o, browser = 1, ingocnito = None, page = 3, pages = [3]\<rparr>"
  let ?s2 = "\<lparr>opts = ?o, browser = 1, ingocnito = None, page = 3, pages = [3, 4]\<rparr>"
  let ?s3 = "\<lparr>opts = ?o, browser = 1, ingocnito = None, page = 3, pages = [4, 3]\<rparr>"
  let ?log1 = "[PoolAcquire, NewPage (OnBrowser 1), PageOnPopup 3]"
  have off: "incognito ?p = Some False" by simp
  have acq: "acquirePage all_succeed (Some ?p) [] = (Inr ?s, ?log1)"
    by (simp add: acquirePage_def perform_def setupRules_def all_succeed_def
          spreadPageOptions_def defaultPageOptions_def or_default_opt_def)
  have pop: "emit_popups all_succeed ?s [(3, 4)] ?log1 = (?s2, ?log1)"
    by (simp add: emit_popup_def on_popup_def)
  have rel: "release all_succeed ?s2 ?log1
               = (Inr (), ?s3, ?log1 @ [PageClose 4, PageClose 3, PoolRelease 1])"
    by (simp add: release_def perform_def all_succeed_def)
  show ?thesis
    using acq rel no_incognito_release_frame [OF off acq pop rel] by simp
qed











lemma count_popup_rule_calls:
  "count_list (popup_rule_calls s evs) (HandlerCall p) = 0"
  "count_list (popup_rule_calls s evs) (PoolRelease b) = 0"
  by (auto simp: count_list_0_iff popup_rule_calls_def split: if_splits option.splits)

lemma count_teardown_calls:
  "count_list (teardown_calls s) (HandlerCall p) = 0"
  "count_list (teardown_calls s) (PoolRelease (browser s)) = 1"
proof -
  have a: "count_list (map PageClose ps) (HandlerCall p) = 0" for ps
    by (induction ps) auto
  have b: "count_list (map PageClose ps) (PoolRelease c) = 0" for ps c
    by (induction ps) auto
  show "count_list (teardown_calls s) (HandlerCall p) = 0"
    by (simp add: teardown_calls_def a split: option.splits)
  show "count_list (teardown_calls s) (PoolRelease (browser s)) = 1"
    by (simp add: teardown_calls_def b split: option.splits)
qed

lemma count_take_teardown_calls:
  "count_list (take k (teardown_calls s)) (HandlerCall p) = 0"
proof -
  have "HandlerCall p \<notin> set (teardown_calls s)"
    by (auto simp: teardown_calls_def split: option.splits)
  then have "HandlerCall p \<notin> set (take k (teardown_calls s))"
    by (auto dest: in_set_takeD)
  then show ?thesis by (simp add: count_list_0_iff)
qed

text \<open>
  C3, as the code has it. Once \<^verbatim>\<open>acquirePage\<close> has resolved, \<^verbatim>\<open>callPage\<close> calls the handler
  once on the primary page and then runs \<^verbatim>\<open>release\<close> once, whether the handler returned or
  threw: after the acquisition the log holds one handler call, the rule set-ups of the
  popups opened meanwhile, and one (possibly cut short) teardown. When that \<^verbatim>\<open>release\<close>
  resolves, \<^verbatim>\<open>callPage\<close> settles as the handler did, value or throw, and the browser went
  back to the pool exactly once; when it rejects, \<^verbatim>\<open>callPage\<close> rejects with the error of
  \<^verbatim>\<open>release\<close>, which replaces the handler's value or error.
\<close>

theorem callPage_releases_once:
  assumes "acquirePage orc options log = (Inr s, log1)"
      and "handler (page s) (log1 @ [HandlerCall (page s)]) = (r, popups)"
      and "emit_popups orc s popups (log1 @ [HandlerCall (page s)]) = (s2, log2)"
      and "release orc s2 log2 = (rr, s3, log3)"
  shows "snd (callPage orc options handler log) = log3
       \<and> (\<exists>k \<le> length (teardown_calls s2).
             log3 = log1 @ [HandlerCall (page s)] @ popup_rule_calls s popups
                      @ take k (teardown_calls s2))
       \<and> count_list (drop (length log1) log3) (HandlerCall (page s)) = 1
       \<and> (rr = Inr () \<longrightarrow>
            callPage orc options handler log =
              (r, log1 @ [HandlerCall (page s)] @ popup_rule_calls s popups @ teardown_calls s2)
            \<and> count_list (drop (length log1) log3) (PoolRelease (browser s)) = 1)
       \<and> (\<forall>e. rr = Inl e \<longrightarrow> fst (callPage orc options handler log) = Inl e)"
proof -
  have log2: "log2 = log1 @ [HandlerCall (page s)] @ popup_rule_calls s popups"
    using emit_popups_log[of orc s popups "log1 @ [HandlerCall (page s)]"] assms(3) by simp
  have b2: "browser s2 = browser s"
    using emit_popups_fields[OF assms(3)] by simp
  have final: "snd (callPage orc options handler log) = log3"
    using assms by (cases rr) (simp_all add: callPage_def)
  from release_prefix[OF assms(4)] obtain k where
    k: "k \<le> length (teardown_calls s2)" "log3 = log2 @ take k (teardown_calls s2)"
    by blast
  have shape: "\<exists>k \<le> length (teardown_calls s2).
             log3 = log1 @ [HandlerCall (page s)] @ popup_rule_calls s popups
                      @ take k (teardown_calls s2)"
    using k log2 by auto
  have once: "count_list (drop (length log1) log3) (HandlerCall (page s)) = 1"
    using k(2) log2 by (simp add: count_popup_rule_calls count_take_teardown_calls)
  have ok: "rr = Inr () \<longrightarrow>
            callPage orc options handler log =
              (r, log1 @ [HandlerCall (page s)] @ popup_rule_calls s popups @ teardown_calls s2)
            \<and> count_list (drop (length log1) log3) (PoolRelease (browser s)) = 1"
  proof
    assume rr: "rr = Inr ()"
    with assms(4) have l3: "log3 = log2 @ teardown_calls s2"
      using release_ok(1)[of orc s2 log2 "()" s3 log3] by simp
    have "callPage orc options handler log = (r, log3)"
      using assms rr by (simp add: callPage_def)
    moreover have "count_list (drop (length log1) log3) (PoolRelease (browser s)) = 1"
      using l3 log2 count_teardown_calls(2)[of s2] b2 by (simp add: count_popup_rule_calls)
    ultimately show "callPage orc options handler log =
              (r, log1 @ [HandlerCall (page s)] @ popup_rule_calls s popups @ teardown_calls s2)
            \<and> count_list (drop (length log1) log3) (PoolRelease (browser s)) = 1"
      using l3 log2 by simp
  qed
  have bad: "\<forall>e. rr = Inl e \<longrightarrow> fst (callPage orc options handler log) = Inl e"
    using assms by (simp add: callPage_def)
  from final shape once ok bad show ?thesis by blast
qed

theorem callPage_releases_once_witness:
  "callPage all_succeed None throwing_handler []
     = (Inl 42,
        [PoolAcquire, CreateIncognitoBrowserContext 1, NewPage (OnContext 2), PageOnPopup 3,
         HandlerCall 3, PageClose 4, PageClose 3, ContextClose 2, PoolRelease 1])"
proof -
  let ?s = "\<lparr>opts = defaultPageOptions, browser = 1, ingocnito = Some 2, page = 3, pages = [3]\<rparr>"
  let ?s2 = "\<lparr>opts = defaultPageOptions, browser = 1, ingocnito = Some 2, page = 3, pages = [3, 4]\<rparr>"
  let ?s3 = "\<lparr>opts = defaultPageOptions, browser = 1, ingocnito = Some 2, page = 3, pages = [4, 3]\<rparr>"
  let ?log1 = "[PoolAcquire, CreateIncognitoBrowserContext 1, NewPage (OnContext 2), PageOnPopup 3]"
  have acq: "acquirePage all_succeed None [] = (Inr ?s, ?log1)"
    by (simp add: acquirePage_def perform_def setupRules_def all_succeed_def
          spreadPageOptions_def defaultPageOptions_def)
  have run: "throwing_handler (page ?s) (?log1 @ [HandlerCall (page ?s)]) = (Inl 42, [(3, 4)])"
    by (simp add: throwing_handler_def)
  have pop: "emit_popups all_succeed ?s [(3, 4)] (?log1 @ [HandlerCall (page ?s)])
               = (?s2, ?log1 @ [HandlerCall 3])"
    by (simp add: emit_popup_def on_popup_def defaultPageOptions_def)
  have rel: "release all_succeed ?s2 (?log1 @ [HandlerCall 3])
               = (Inr (), ?s3, ?log1 @ [HandlerCall 3, PageClose 4, PageClose 3, ContextClose 2,
                                        PoolRelease 1])"
    by (simp add: release_def perform_def all_succeed_def)
  have rules: "popup_rule_calls ?s [(3, 4)] = []"
    by (simp add: popup_rule_calls_def defaultPageOptions_def)
  have td: "teardown_calls ?s2 = [PageClose 4, PageClose 3, ContextClose 2, PoolRelease 1]"
    by (simp add: teardown_calls_def)
  show ?thesis
    using callPage_releases_once [where handler = throwing_handler, OF acq run pop rel] rules td
    by simp
qed

theorem callPage_release_error_counterexample:
  "callPage (close_throws 3) None returning_handler []
     = (Inl 13,
        [PoolAcquire, CreateIncognitoBrowserContext 1, NewPage (OnContext 2), PageOnPopup 3,
         HandlerCall 3, PageClose 3])
   \<and> callPage (close_throws 3) None throwing_handler []
     = (Inl 13,
        [PoolAcquire, CreateIncognitoBrowserContext 1, NewPage (OnContext 2), PageOnPopup 3,
         HandlerCall 3, PageClose 4, PageClose 3])"
  by (simp add: callPage_def acquirePage_def spreadPageOptions_def setupRules_def release_def
        emit_popup_def on_popup_def perform_def close_throws_def all_succeed_def
        defaultPageOptions_def returning_handler_def throwing_handler_def)


text \<open>
  C4, as the code has it. The session keeps no released state. A second \<^verbatim>\<open>release\<close> runs
  the teardown again: the first one reversed \<open>pages\<close> in place, so the pages are now closed
  in creation order, then the context if any, then \<^verbatim>\<open>pool.release(browser)\<close>; \<open>pages\<close> is
  back in creation order afterwards. It rejects only with what one of these calls threw,
  and resolves when none throws. \<^verbatim>\<open>setupRules\<close> on a released session still calls
  \<^verbatim>\<open>setupPageRules\<close> and answers what that answers.
\<close>

theorem second_release_repeats_teardown:
  assumes "release orc s log = (r1, s1, log1)"
      and "release orc s1 logB = (r2, s2, log2)"
  shows "pages s2 = pages s
       \<and> teardown_calls s1 =
           map PageClose (pages s)
           @ (case ingocnito s of Some c \<Rightarrow> [ContextClose c] | None \<Rightarrow> [])
           @ [PoolRelease (browser s)]
       \<and> (\<exists>k. log2 = logB @ take k (teardown_calls s1))
       \<and> (r2 = Inr () \<longrightarrow> log2 = logB @ teardown_calls s1)
       \<and> (\<forall>e. r2 = Inl e \<longrightarrow>
            (\<exists>k < length (teardown_calls s1).
               orc (logB @ take k (teardown_calls s1)) (teardown_calls s1 ! k) = Inl e))
       \<and> ((\<forall>k < length (teardown_calls s1).
              \<exists>v. orc (logB @ take k (teardown_calls s1)) (teardown_calls s1 ! k) = Inr v)
            \<longrightarrow> r2 = Inr ())
       \<and> setupRules orc (page s1) ro logB =
           (orc logB (SetupPageRules (page s) ro), logB @ [SetupPageRules (page s) ro])"
proof -
  have s1: "s1 = s\<lparr>pages := rev (pages s)\<rparr>"
    using assms(1) by (simp add: release_run_calls)
  have s2: "s2 = s1\<lparr>pages := rev (pages s1)\<rparr>"
    using assms(2) by (simp add: release_run_calls)
  have restored: "pages s2 = pages s" using s1 s2 by simp
  have td: "teardown_calls s1 =
           map PageClose (pages s)
           @ (case ingocnito s of Some c \<Rightarrow> [ContextClose c] | None \<Rightarrow> [])
           @ [PoolRelease (browser s)]"
    using s1 by (simp add: teardown_calls_def)
  from release_prefix[OF assms(2)]
  have pre: "\<exists>k. log2 = logB @ take k (teardown_calls s1)" by blast
  have full: "r2 = Inr () \<longrightarrow> log2 = logB @ teardown_calls s1"
    using release_ok(1)[of orc s1 logB "()" s2 log2] assms(2) by simp
  have thrown: "\<forall>e. r2 = Inl e \<longrightarrow>
            (\<exists>k < length (teardown_calls s1).
               orc (logB @ take k (teardown_calls s1)) (teardown_calls s1 ! k) = Inl e)"
    using release_failed[of orc s1 logB _ s2 log2] assms(2) by blast
  have calm: "(\<forall>k < length (teardown_calls s1).
              \<exists>v. orc (logB @ take k (teardown_calls s1)) (teardown_calls s1 ! k) = Inr v)
            \<longrightarrow> r2 = Inr ()"
  proof
    assume "\<forall>k < length (teardown_calls s1).
              \<exists>v. orc (logB @ take k (teardown_calls s1)) (teardown_calls s1 ! k) = Inr v"
    then have "run_calls orc (teardown_calls s1) logB = (Inr (), logB @ teardown_calls s1)"
      by (intro run_calls_all_ok) blast
    with assms(2) show "r2 = Inr ()" by (simp add: release_run_calls)
  qed
  have rules: "setupRules orc (page s1) ro logB =
           (orc logB (SetupPageRules (page s) ro), logB @ [SetupPageRules (page s) ro])"
    using s1 by (simp add: setupRules_def perform_def)
  from restored td pre full thrown calm rules show ?thesis by blast
qed

theorem second_release_repeats_teardown_witness:
  "release all_succeed
     \<lparr>opts = defaultPageOptions, browser = 1, ingocnito = None, page = 3, pages = [3, 4]\<rparr> []
     = (Inr (),
        \<lparr>opts = defaultPageOptions, browser = 1, ingocnito = None, page = 3, pages = [4, 3]\<rparr>,
        [PageClose 4, PageClose 3, PoolRelease 1])
   \<and> release (close_throws 4)
     \<lparr>opts = defaultPageOptions, browser = 1, ingocnito = None, page = 3, pages = [4, 3]\<rparr>
     [PageClose 4, PageClose 3, PoolRelease 1]
     = (Inl 13,
        \<lparr>opts = defaultPageOptions, browser = 1, ingocnito = None, page = 3, pages = [3, 4]\<rparr>,
        [PageClose 4, PageClose 3, PoolRelease 1, PageClose 3, PageClose 4])
   \<and> teardown_calls
        \<lparr>opts = defaultPageOptions, browser = 1, ingocnito = None, page = 3, pages = [4, 3]\<rparr>
     = [PageClose 3, PageClose 4, PoolRelease 1]"
proof -
  let ?s = "\<lparr>opts = defaultPageOptions, browser = 1, ingocnito = None, page = 3, pages = [3, 4]\<rparr>"
  let ?s1 = "\<lparr>opts = defaultPageOptions, browser = 1, ingocnito = None, page = 3, pages = [4, 3]\<rparr>"
  have one: "release (close_throws 4) ?s [] = (Inl 13, ?s1, [PageClose 4])"
    by (simp add: release_def perform_def close_throws_def)
  have calm: "release all_succeed ?s [] = (Inr (), ?s1, [PageClose 4, PageClose 3, PoolRelease 1])"
    by (simp add: release_def perform_def all_succeed_def)
  have two: "release (close_throws 4) ?s1 [PageClose 4, PageClose 3, PoolRelease 1]
     = (Inl 13, ?s, [PageClose 4, PageClose 3, PoolRelease 1, PageClose 3, PageClose 4])"
    by (simp add: release_def perform_def close_throws_def all_succeed_def)
  show ?thesis
    using calm two second_release_repeats_teardown [OF one two, of 7] by simp
qed

theorem second_release_counterexample:
  "release all_succeed
     \<lparr>opts = defaultPageOptions, browser = 1, ingocnito = Some 2, page = 3, pages = [3, 4]\<rparr> []
     = (Inr (),
        \<lparr>opts = defaultPageOptions, browser = 1, ingocnito = Some 2, page = 3, pages = [4, 3]\<rparr>,
        [PageClose 4, PageClose 3, ContextClose 2, PoolRelease 1])
   \<and> release all_succeed
     \<lparr>opts = defaultPageOptions, browser = 1, ingocnito = Some 2, page = 3, pages = [4, 3]\<rparr>
     [PageClose 4, PageClose 3, ContextClose 2, PoolRelease 1]
     = (Inr (),
        \<lparr>opts = defaultPageOptions, browser = 1, ingocnito = Some 2, page = 3, pages = [3, 4]\<rparr>,
        [PageClose 4, PageClose 3, ContextClose 2, PoolRelease 1,
         PageClose 3, PageClose 4, ContextClose 2, PoolRelease 1])
   \<and> setupRules all_succeed 3 7 [PageClose 4, PageClose 3, ContextClose 2, PoolRelease 1]
     = (Inr 0, [PageClose 4, PageClose 3, ContextClose 2, PoolRelease 1, SetupPageRules 3 7])"
  by (simp add: release_def perform_def setupRules_def all_succeed_def)

text \<open>
  C5, as the code has it. A run of popup events appends to the tracked pages exactly the
  popups reported on the primary page, in order, and sets the rules up for exactly those,
  when \<^verbatim>\<open>applyRulesToPopups\<close> is true and \<^verbatim>\<open>ruleOptions\<close> is set. A \<^verbatim>\<open>release\<close> that resolves
  has closed each of them. A popup reported on another page, such as one opened by a
  popup, is not tracked.
\<close>

theorem popups_of_primary_tracked:
  assumes "emit_popups orc s evs log = (s2, log2)"
      and "release orc s2 logB = (Inr (), s3, log3)"
  shows "pages s2 = pages s @ map snd (filter (\<lambda>ev. fst ev = page s) evs)
       \<and> log2 = log @ popup_rule_calls s evs
       \<and> (\<forall>ev \<in> set evs. fst ev = page s \<longrightarrow> PageClose (snd ev) \<in> set (drop (length logB) log3))"
proof -
  have tracked: "pages s2 = pages s @ map snd (filter (\<lambda>ev. fst ev = page s) evs)"
    using emit_popups_fields[OF assms(1)] by simp
  have rules: "log2 = log @ popup_rule_calls s evs"
    using emit_popups_log[of orc s evs log] assms(1) by simp
  have "log3 = logB @ teardown_calls s2"
    using release_ok(1)[OF assms(2)] .
  then have "PageClose ` set (pages s2) \<subseteq> set (drop (length logB) log3)"
    by (auto simp: teardown_calls_def)
  with tracked
  have closed: "\<forall>ev \<in> set evs. fst ev = page s \<longrightarrow> PageClose (snd ev) \<in> set (drop (length logB) log3)"
    by auto
  from tracked rules closed show ?thesis by blast
qed

theorem popups_of_primary_tracked_witness:
  "emit_popups all_succeed
     \<lparr>opts = \<lparr>incognito = Some True, applyRulesToPopups = Some True, ruleOptions = Some 7\<rparr>,
       browser = 1, ingocnito = Some 2, page = 3, pages = [3]\<rparr>
     [(3, 4), (3, 5)] []
     = (\<lparr>opts = \<lparr>incognito = Some True, applyRulesToPopups = Some True, ruleOptions = Some 7\<rparr>,
         browser = 1, ingocnito = Some 2, page = 3, pages = [3, 4, 5]\<rparr>,
        [SetupPageRules 4 7, SetupPageRules 5 7])
   \<and> PageClose 4 \<in> set [PageClose 5, PageClose 4, PageClose 3, ContextClose 2, PoolRelease 1]
   \<and> PageClose 5 \<in> set [PageClose 5, PageClose 4, PageClose 3, ContextClose 2, PoolRelease 1]"
proof -
  let ?o = "\<lparr>incognito = Some True, applyRulesToPopups = Some True, ruleOptions = Some 7\<rparr>"
  let ?s = "\<lparr>opts = ?o, browser = 1, ingocnito = Some 2, page = 3, pages = [3]\<rparr>"
  let ?s2 = "\<lparr>opts = ?o, browser = 1, ingocnito = Some 2, page = 3, pages = [3, 4, 5]\<rparr>"
  let ?s3 = "\<lparr>opts = ?o, browser = 1, ingocnito = Some 2, page = 3, pages = [5, 4, 3]\<rparr>"
  have pop: "emit_popups all_succeed ?s [(3, 4), (3, 5)] []
               = (?s2, [SetupPageRules 4 7, SetupPageRules 5 7])"
    by (simp add: emit_popup_def on_popup_def setupRules_def perform_def)
  have rel: "release all_succeed ?s2 []
               = (Inr (), ?s3, [PageClose 5, PageClose 4, PageClose 3, ContextClose 2, PoolRelease 1])"
    by (simp add: release_def perform_def all_succeed_def)
  show ?thesis
    using pop popups_of_primary_tracked [OF pop rel] by simp
qed

theorem nested_popup_counterexample:
  "acquirePage all_succeed
     (Some \<lparr>incognito = Some False, applyRulesToPopups = None, ruleOptions = Some 7\<rparr>) []
     = (Inr \<lparr>opts = \<lparr>incognito = Some False, applyRulesToPopups = Some True,
                      ruleOptions = Some 7\<rparr>,
             browser = 1, ingocnito = None, page = 3, pages = [3]\<rparr>,
        [PoolAcquire, NewPage (OnBrowser 1), SetupPageRules 3 7, PageOnPopup 3])
   \<and> emit_popups all_succeed
     \<lparr>opts = \<lparr>incognito = Some False, applyRulesToPopups = Some True, ruleOptions = Some 7\<rparr>,
       browser = 1, ingocnito = None, page = 3, pages = [3]\<rparr>
     [(3, 4), (4, 5)] []
     = (\<lparr>opts = \<lparr>incognito = Some False, applyRulesToPopups = Some True, ruleOptions = Some 7\<rparr>,
         browser = 1, ingocnito = None, page = 3, pages = [3, 4]\<rparr>,
        [SetupPageRules 4 7])
   \<and> release all_succeed
     \<lparr>opts = \<lparr>incognito = Some False, applyRulesToPopups = Some True, ruleOptions = Some 7\<rparr>,
       browser = 1, ingocnito = None, page = 3, pages = [3, 4]\<rparr>
     [SetupPageRules 4 7]
     = (Inr (),
        \<lparr>opts = \<lparr>incognito = Some False, applyRulesToPopups = Some True, ruleOptions = Some 7\<rparr>,
          browser = 1, ingocnito = None, page = 3, pages = [4, 3]\<rparr>,
        [SetupPageRules 4 7, PageClose 4, PageClose 3, PoolRelease 1])"
  by (simp add: acquirePage_def emit_popup_def on_popup_def setupRules_def release_def
        perform_def all_succeed_def spreadPageOptions_def defaultPageOptions_def
        or_default_opt_def)

end
